theory Spec2Isabelle
  imports Main
begin

section \<open>Rows of the four tables\<close>

text \<open>
  The classes of \<^verbatim>\<open>models.py\<close> carry their table's schema in the docstring. Each
  class is a record of its columns. The \<^verbatim>\<open>int\<close> columns are modelled as unbounded
  integers; \<^verbatim>\<open>tickets.order_id\<close> is the only nullable column.
\<close>

record Event =
  event_id :: int
  event_slug :: string

record Order =
  order_id :: int
  order_event_id :: int

record Product =
  product_id :: int
  product_event_id :: int
  product_slug :: string
  product_quota :: int

record Ticket =
  ticket_id :: int
  ticket_product_id :: int
  ticket_order_id :: "int option"

text \<open>
  The exceptions the functions can raise: those of the source
  (\<^verbatim>\<open>NotEnoughTickets\<close>, \<^verbatim>\<open>MultipleRowsReturned\<close>, \<^verbatim>\<open>KeyError\<close>,
  \<^verbatim>\<open>NotImplementedError\<close>, \<^verbatim>\<open>AssertionError\<close>), the \<^verbatim>\<open>TypeError\<close> Python raises
  when a call does not fit the signature, and the errors of the storage engine for a
  foreign key that references no row, a negative \<^verbatim>\<open>LIMIT\<close> and a statement that does not
  parse.
\<close>

datatype error =
    NotEnoughTickets
  | MultipleRowsReturned
  | KeyError
  | NotImplementedError
  | AssertionError
  | TypeError
  | ForeignKeyViolation
  | InvalidRowCountInLimitClause
  | SyntaxError

section \<open>The storage engine: row versions, row locks, transactions\<close>

text \<open>
  Every function of the source takes a connection \<^verbatim>\<open>aconn\<close>; the statements it sends
  run in that connection's open transaction. A connection is a number. Each stored row
  carries the state the engine keeps for it:
  \<^item> \<open>Committed\<close>: no open transaction holds the row;
  \<^item> \<open>Locked c\<close>: the open transaction of \<open>c\<close> holds the row lock (\<^verbatim>\<open>FOR UPDATE\<close>);
  \<^item> \<open>Inserted c\<close>: the open transaction of \<open>c\<close> inserted the row; no other
    connection sees it before \<open>c\<close> commits;
  \<^item> \<open>Updated c old\<close>: the open transaction of \<open>c\<close> wrote the row, whose committed
    version is \<open>old\<close>; other connections read \<open>old\<close> and find the row locked.
  A statement is one atomic step (read committed isolation, statements interleave, their
  insides do not).
\<close>

type_synonym conn = nat

datatype 'a xact = Committed | Locked conn | Inserted conn | Updated conn 'a

type_synonym 'a table = "('a xact \<times> 'a) list"

fun owner :: "'a xact \<Rightarrow> conn option" where
  "owner Committed = None"
| "owner (Locked c) = Some c"
| "owner (Inserted c) = Some c"
| "owner (Updated c old) = Some c"

fun visible :: "conn \<Rightarrow> 'a xact \<times> 'a \<Rightarrow> 'a option" where
  "visible c (Committed, r) = Some r"
| "visible c (Locked c', r) = Some r"
| "visible c (Inserted c', r) = (if c' = c then Some r else None)"
| "visible c (Updated c' old, r) = (if c' = c then Some r else Some old)"

definition visible_rows :: "conn \<Rightarrow> 'a table \<Rightarrow> 'a list" where
  "visible_rows c tab = List.map_filter (visible c) tab"

definition lockable :: "conn \<Rightarrow> 'a xact \<Rightarrow> bool" where
  "lockable c x = (owner x = None \<or> owner x = Some c)"

fun lock_row :: "conn \<Rightarrow> 'a xact \<times> 'a \<Rightarrow> 'a xact \<times> 'a" where
  "lock_row c (Committed, r) = (Locked c, r)"
| "lock_row c (x, r) = (x, r)"

fun commit_row :: "conn \<Rightarrow> 'a xact \<times> 'a \<Rightarrow> 'a xact \<times> 'a" where
  "commit_row c (x, r) = (if owner x = Some c then (Committed, r) else (x, r))"

fun rollback_row :: "conn \<Rightarrow> 'a xact \<times> 'a \<Rightarrow> ('a xact \<times> 'a) option" where
  "rollback_row c (Committed, r) = Some (Committed, r)"
| "rollback_row c (Locked c', r) = Some (if c' = c then Committed else Locked c', r)"
| "rollback_row c (Inserted c', r) = (if c' = c then None else Some (Inserted c', r))"
| "rollback_row c (Updated c' old, r) =
     Some (if c' = c then (Committed, old) else (Updated c' old, r))"

text \<open>
  The database: the four tables in insertion order, and the next value of each identity
  column (\<^verbatim>\<open>generated always as identity\<close>). A sequence is never rolled back.
\<close>

record db =
  events :: "Event table"
  products :: "Product table"
  orders :: "Order table"
  tickets :: "Ticket table"
  events_seq :: int
  products_seq :: int
  orders_seq :: int
  tickets_seq :: int

definition create_tables :: db where
  "create_tables =
     \<lparr>events = [], products = [], orders = [], tickets = [],
      events_seq = 1, products_seq = 1, orders_seq = 1, tickets_seq = 1\<rparr>"

definition commit :: "conn \<Rightarrow> db \<Rightarrow> db" where
  "commit c s =
     s\<lparr>events := map (commit_row c) (events s),
       products := map (commit_row c) (products s),
       orders := map (commit_row c) (orders s),
       tickets := map (commit_row c) (tickets s)\<rparr>"

definition rollback :: "conn \<Rightarrow> db \<Rightarrow> db" where
  "rollback c s =
     s\<lparr>events := List.map_filter (rollback_row c) (events s),
       products := List.map_filter (rollback_row c) (products s),
       orders := List.map_filter (rollback_row c) (orders s),
       tickets := List.map_filter (rollback_row c) (tickets s)\<rparr>"

text \<open>A connection is idle when it owns no row: it has no open transaction at work.\<close>

definition owns :: "conn \<Rightarrow> 'a table \<Rightarrow> bool" where
  "owns c tab = list_ex (\<lambda>xr. owner (fst xr) = Some c) tab"

definition idle :: "conn \<Rightarrow> db \<Rightarrow> bool" where
  "idle c s =
     (\<not> owns c (events s) \<and> \<not> owns c (products s) \<and> \<not> owns c (orders s)
      \<and> \<not> owns c (tickets s))"



section \<open>utils.py\<close>

text \<open>
  \<^verbatim>\<open>get_row\<close>: \<^verbatim>\<open>select * from t where k1 = v1 and ... limit 2\<close>. The keyword arguments
  are the predicate \<open>where_clause\<close>. More than one row raises
  \<^verbatim>\<open>MultipleRowsReturned\<close>, none raises \<^verbatim>\<open>KeyError\<close>.
\<close>

definition get_row :: "conn \<Rightarrow> 'a table \<Rightarrow> ('a \<Rightarrow> bool) \<Rightarrow> error + 'a" where
  "get_row c tab where_clause =
     (let found = take 2 (filter where_clause (visible_rows c tab))
      in if length found > 1 then Inl MultipleRowsReturned
         else (case found of [] \<Rightarrow> Inl KeyError | row # _ \<Rightarrow> Inr row))"

text \<open>
  \<^verbatim>\<open>insert into t (...) values (...) on conflict (unique_fields) do nothing returning (...)\<close>
  on one table. \<open>same_key\<close> holds of the rows with the new row's unique fields. A row of
  that key which the connection sees makes the statement do nothing and return no row.
  A row of that key inserted by another open transaction makes the statement wait for
  that transaction: it does not return in this state, which is the value \<open>None\<close>.
\<close>

definition insert_on_conflict_do_nothing ::
  "conn \<Rightarrow> ('a \<Rightarrow> bool) \<Rightarrow> 'a \<Rightarrow> 'a table \<Rightarrow> ('a option \<times> 'a table) option" where
  "insert_on_conflict_do_nothing c same_key new tab =
     (if list_ex (\<lambda>xr. same_key (snd xr) \<and> visible c xr \<noteq> None) tab then Some (None, tab)
      else if list_ex (\<lambda>xr. same_key (snd xr)) tab then None
      else Some (Some new, tab @ [(Inserted c, new)]))"

text \<open>
  \<^verbatim>\<open>ensure_row\<close>. \<open>insert_sql\<close> is the insert statement on the database (it raises, or
  fetches the inserted row or nothing). When it fetches a row, that row is returned.
  Otherwise the source calls
  \<^verbatim>\<open>get_row(aconn, table_name, *{key: kwargs[key] for key in unique_fields})\<close>:
  the single star unpacks the dictionary's keys as positional arguments, and
  \<^verbatim>\<open>get_row\<close> takes two positional parameters, so with one unique field or more the call
  raises \<^verbatim>\<open>TypeError\<close> before any statement is sent. With no unique field the call
  binds, and the select it builds has an empty \<^verbatim>\<open>where\<close>, which does not parse.
\<close>

definition get_row_unpacked :: "string list \<Rightarrow> error" where
  "get_row_unpacked unique_fields = (if unique_fields = [] then SyntaxError else TypeError)"

definition ensure_row ::
  "(db \<Rightarrow> ((error + 'a option) \<times> db) option) \<Rightarrow> string list \<Rightarrow> db
     \<Rightarrow> ((error + 'a) \<times> db) option" where
  "ensure_row insert_sql unique_fields s =
     (case insert_sql s of
        None \<Rightarrow> None
      | Some (Inl e, s') \<Rightarrow> Some (Inl e, s')
      | Some (Inr (Some row), s') \<Rightarrow> Some (Inr row, s')
      | Some (Inr None, s') \<Rightarrow> Some (Inl (get_row_unpacked unique_fields), s'))"

section \<open>models.py\<close>

subsection \<open>Event\<close>

text \<open>
  The insert of \<^verbatim>\<open>Event.ensure\<close>. The identity value is drawn before the conflict is
  found, so the sequence advances also when nothing is inserted.
\<close>

definition insert_event :: "conn \<Rightarrow> string \<Rightarrow> db \<Rightarrow> ((error + Event option) \<times> db) option" where
  "insert_event c slug s =
     (case insert_on_conflict_do_nothing c (\<lambda>e. event_slug e = slug)
             \<lparr>event_id = events_seq s, event_slug = slug\<rparr> (events s) of
        None \<Rightarrow> None
      | Some (row, tab) \<Rightarrow>
          Some (Inr row, s\<lparr>events := tab, events_seq := events_seq s + 1\<rparr>))"

definition Event_ensure :: "conn \<Rightarrow> string \<Rightarrow> db \<Rightarrow> ((error + Event) \<times> db) option" where
  "Event_ensure c slug s = ensure_row (insert_event c slug) [''slug''] s"

definition Event_get :: "conn \<Rightarrow> string \<Rightarrow> db \<Rightarrow> error + Event" where
  "Event_get c slug s = get_row c (events s) (\<lambda>e. event_slug e = slug)"

subsection \<open>Order\<close>

text \<open>
  \<^verbatim>\<open>Order.create\<close>: an unconditional insert. The foreign key wants a row of
  \<^verbatim>\<open>events\<close> that the connection sees. (\<^verbatim>\<open>INSERT RETURNING\<close> always returns the row,
  so the \<^verbatim>\<open>AssertionError\<close> of the source has no branch.)
\<close>

definition Order_create :: "conn \<Rightarrow> Event \<Rightarrow> db \<Rightarrow> (error + Order) \<times> db" where
  "Order_create c event s =
     (let s1 = s\<lparr>orders_seq := orders_seq s + 1\<rparr>;
          new = \<lparr>order_id = orders_seq s, order_event_id = event_id event\<rparr>
      in if event_id event \<in> event_id ` set (visible_rows c (events s))
         then (Inr new, s1\<lparr>orders := orders s @ [(Inserted c, new)]\<rparr>)
         else (Inl ForeignKeyViolation, s1))"

subsection \<open>Product\<close>

definition insert_product ::
  "conn \<Rightarrow> Event \<Rightarrow> string \<Rightarrow> int \<Rightarrow> db \<Rightarrow> ((error + Product option) \<times> db) option" where
  "insert_product c event slug quota s =
     (let s1 = s\<lparr>products_seq := products_seq s + 1\<rparr>
      in case insert_on_conflict_do_nothing c
                (\<lambda>p. product_event_id p = event_id event \<and> product_slug p = slug)
                \<lparr>product_id = products_seq s, product_event_id = event_id event,
                 product_slug = slug, product_quota = quota\<rparr> (products s) of
           None \<Rightarrow> None
         | Some (None, tab) \<Rightarrow> Some (Inr None, s1)
         | Some (Some row, tab) \<Rightarrow>
             if event_id event \<in> event_id ` set (visible_rows c (events s))
             then Some (Inr (Some row), s1\<lparr>products := tab\<rparr>)
             else Some (Inl ForeignKeyViolation, s1))"

text \<open>
  \<^verbatim>\<open>Product.ensure_tickets\<close>: count the product's tickets
  (\<^verbatim>\<open>select count(*) from tickets where product_id = %s\<close>); equal to the quota: return;
  more: \<^verbatim>\<open>NotImplementedError\<close>; fewer: insert \<^verbatim>\<open>quota - count\<close> rows with the next
  identity values and a null order id. The foreign key wants a row of \<^verbatim>\<open>products\<close>.
\<close>

definition new_tickets :: "conn \<Rightarrow> int \<Rightarrow> int \<Rightarrow> nat \<Rightarrow> Ticket table" where
  "new_tickets c pid first n =
     map (\<lambda>i. (Inserted c,
                \<lparr>ticket_id = first + int i, ticket_product_id = pid, ticket_order_id = None\<rparr>))
         [0..<n]"

definition ticket_count :: "conn \<Rightarrow> int \<Rightarrow> db \<Rightarrow> int" where
  "ticket_count c pid s =
     int (length (filter (\<lambda>t. ticket_product_id t = pid) (visible_rows c (tickets s))))"

definition ensure_tickets :: "conn \<Rightarrow> Product \<Rightarrow> db \<Rightarrow> (error + unit) \<times> db" where
  "ensure_tickets c self s =
     (let count = ticket_count c (product_id self) s
      in if count = product_quota self then (Inr (), s)
         else if count > product_quota self then (Inl NotImplementedError, s)
         else let n = nat (product_quota self - count);
                  s1 = s\<lparr>tickets_seq := tickets_seq s + int n\<rparr>
              in if product_id self \<in> product_id ` set (visible_rows c (products s))
                 then (Inr (),
                       s1\<lparr>tickets := tickets s @ new_tickets c (product_id self) (tickets_seq s) n\<rparr>)
                 else (Inl ForeignKeyViolation, s1))"

definition Product_ensure ::
  "conn \<Rightarrow> Event \<Rightarrow> string \<Rightarrow> int \<Rightarrow> db \<Rightarrow> ((error + Product) \<times> db) option" where
  "Product_ensure c event slug quota s =
     (case ensure_row (insert_product c event slug quota) [''event_id'', ''slug''] s of
        None \<Rightarrow> None
      | Some (Inl e, s') \<Rightarrow> Some (Inl e, s')
      | Some (Inr product, s') \<Rightarrow>
          (case ensure_tickets c product s' of
             (Inl e, s'') \<Rightarrow> Some (Inl e, s'')
           | (Inr _, s'') \<Rightarrow> Some (Inr product, s'')))"

definition Product_get :: "conn \<Rightarrow> Event \<Rightarrow> string \<Rightarrow> db \<Rightarrow> error + Product" where
  "Product_get c event slug s =
     get_row c (products s) (\<lambda>p. product_event_id p = event_id event \<and> product_slug p = slug)"

text \<open>
  The scans of \<^verbatim>\<open>tickets\<close> that end in \<^verbatim>\<open>for update skip locked\<close>: a row qualifies
  when the version the connection sees belongs to the product and has a null order id,
  and no other open transaction holds the row.
\<close>

definition claimable :: "conn \<Rightarrow> int \<Rightarrow> Ticket xact \<times> Ticket \<Rightarrow> bool" where
  "claimable c pid xr =
     (case visible c xr of
        None \<Rightarrow> False
      | Some t \<Rightarrow> ticket_product_id t = pid \<and> ticket_order_id t = None \<and> lockable c (fst xr))"

text \<open>
  \<^verbatim>\<open>Product.get_products_with_availability\<close>: for each product of the event the
  subquery locks the first qualifying ticket (\<^verbatim>\<open>limit 1\<close>); \<^verbatim>\<open>available\<close> says whether
  it found one.
\<close>

fun lock_first :: "conn \<Rightarrow> int \<Rightarrow> Ticket table \<Rightarrow> bool \<times> Ticket table" where
  "lock_first c pid [] = (False, [])"
| "lock_first c pid (xr # tab) =
     (if claimable c pid xr then (True, lock_row c xr # tab)
      else (let (found, tab') = lock_first c pid tab in (found, xr # tab')))"

fun probe_products ::
  "conn \<Rightarrow> Event \<Rightarrow> Product list \<Rightarrow> Ticket table \<Rightarrow> (Product \<times> bool) list \<times> Ticket table" where
  "probe_products c event [] tab = ([], tab)"
| "probe_products c event (p # ps) tab =
     (let (available, tab') = lock_first c (product_id p) tab;
          (rest, tab'') = probe_products c event ps tab'
      in ((\<lparr>product_id = product_id p, product_event_id = event_id event,
            product_slug = product_slug p, product_quota = product_quota p\<rparr>, available) # rest,
          tab''))"

definition get_products_with_availability ::
  "conn \<Rightarrow> Event \<Rightarrow> db \<Rightarrow> (Product \<times> bool) list \<times> db" where
  "get_products_with_availability c event s =
     (let (result, tab) =
            probe_products c event
              (filter (\<lambda>p. product_event_id p = event_id event) (visible_rows c (products s)))
              (tickets s)
      in (result, s\<lparr>tickets := tab\<rparr>))"

subsection \<open>Ticket\<close>

text \<open>
  A row the transaction writes: the first write of a committed row keeps its committed
  version; a row the transaction inserted, or has written before, keeps its state.
\<close>

fun update_row :: "conn \<Rightarrow> int \<Rightarrow> Ticket xact \<times> Ticket \<Rightarrow> Ticket xact \<times> Ticket" where
  "update_row c oid (Committed, t) = (Updated c t, t\<lparr>ticket_order_id := Some oid\<rparr>)"
| "update_row c oid (Locked c', t) = (Updated c t, t\<lparr>ticket_order_id := Some oid\<rparr>)"
| "update_row c oid (x, t) = (x, t\<lparr>ticket_order_id := Some oid\<rparr>)"

text \<open>
  \<^verbatim>\<open>Ticket.reserve\<close>. The CTE \<^verbatim>\<open>reserved\<close> is the ids of the first \<^verbatim>\<open>quantity\<close>
  qualifying tickets; the update joins \<^verbatim>\<open>tickets\<close> with it on the id and sets the order
  id (the foreign key wants a row of \<^verbatim>\<open>orders\<close>); \<^verbatim>\<open>rows\<close> is the ids it returns. A
  negative \<^verbatim>\<open>limit\<close> is an error of the engine. Fewer rows than \<^verbatim>\<open>quantity\<close> raise
  \<^verbatim>\<open>NotEnoughTickets\<close> after the update has run.
\<close>

definition reserve ::
  "conn \<Rightarrow> Order \<Rightarrow> Product \<Rightarrow> int \<Rightarrow> db \<Rightarrow> (error + Ticket list) \<times> db" where
  "reserve c order product quantity s =
     (if quantity < 0 then (Inl InvalidRowCountInLimitClause, s)
      else
        let reserved = map (\<lambda>xr. ticket_id (snd xr))
                         (take (nat quantity) (filter (claimable c (product_id product)) (tickets s)));
            joined = (\<lambda>xr. ticket_id (snd xr) \<in> set reserved \<and> visible c xr \<noteq> None
                            \<and> lockable c (fst xr));
            rows = map (\<lambda>xr. ticket_id (snd xr)) (filter joined (tickets s));
            s' = s\<lparr>tickets :=
                     map (\<lambda>xr. if joined xr then update_row c (order_id order) xr else xr) (tickets s)\<rparr>
        in if rows \<noteq> [] \<and> order_id order \<notin> order_id ` set (visible_rows c (orders s))
           then (Inl ForeignKeyViolation, s)
           else if int (length rows) < quantity then (Inl NotEnoughTickets, s')
           else (Inr (map (\<lambda>i. \<lparr>ticket_id = i, ticket_product_id = product_id product,
                                 ticket_order_id = Some (order_id order)\<rparr>) rows), s'))"

text \<open>\<^verbatim>\<open>Ticket.count_free\<close>: a plain count of what the connection sees, no locks.\<close>

definition count_free :: "conn \<Rightarrow> Product \<Rightarrow> db \<Rightarrow> int" where
  "count_free c product s =
     int (length (filter (\<lambda>t. ticket_product_id t = product_id product \<and> ticket_order_id t = None)
                    (visible_rows c (tickets s))))"

text \<open>
  The rows a reservation picks, and the table after they have been written: names for
  the two values \<^verbatim>\<open>Ticket.reserve\<close> computes, used to state what it does.
\<close>

definition chosen :: "conn \<Rightarrow> Product \<Rightarrow> int \<Rightarrow> db \<Rightarrow> Ticket table" where
  "chosen c product quantity s =
     take (nat quantity) (filter (claimable c (product_id product)) (tickets s))"

definition claim :: "conn \<Rightarrow> Order \<Rightarrow> Ticket table \<Rightarrow> Ticket table \<Rightarrow> Ticket table" where
  "claim c order ch tab =
     map (\<lambda>xr. if xr \<in> set ch then update_row c (order_id order) xr else xr) tab"

section \<open>The databases of the tests\<close>

text \<open>
  The rows \<^verbatim>\<open>test_relaxed\<close> and \<^verbatim>\<open>test_concurrent\<close> start from: one event, one product
  with quota 10, its ten tickets, all committed by connection 0; then an order that
  connection 1 has inserted in its open transaction.
\<close>

definition test_event :: Event where
  "test_event = \<lparr>event_id = 1, event_slug = ''test-event''\<rparr>"

definition test_product :: Product where
  "test_product =
     \<lparr>product_id = 1, product_event_id = 1, product_slug = ''test-product'', product_quota = 10\<rparr>"

definition test_order :: Order where
  "test_order = \<lparr>order_id = 1, order_event_id = 1\<rparr>"

definition free_ticket :: "int \<Rightarrow> Ticket" where
  "free_ticket i = \<lparr>ticket_id = i, ticket_product_id = 1, ticket_order_id = None\<rparr>"

definition with_event :: db where
  "with_event =
     \<lparr>events = [(Inserted 0, test_event)], products = [], orders = [], tickets = [],
      events_seq = 2, products_seq = 1, orders_seq = 1, tickets_seq = 1\<rparr>"

definition with_product :: db where
  "with_product =
     \<lparr>events = [(Inserted 0, test_event)], products = [(Inserted 0, test_product)], orders = [],
      tickets = map (\<lambda>i. (Inserted 0, free_ticket i)) [1, 2, 3, 4, 5, 6, 7, 8, 9, 10],
      events_seq = 2, products_seq = 2, orders_seq = 1, tickets_seq = 11\<rparr>"

definition shop :: db where
  "shop =
     \<lparr>events = [(Committed, test_event)], products = [(Committed, test_product)], orders = [],
      tickets = map (\<lambda>i. (Committed, free_ticket i)) [1, 2, 3, 4, 5, 6, 7, 8, 9, 10],
      events_seq = 2, products_seq = 2, orders_seq = 1, tickets_seq = 11\<rparr>"

definition shop_with_order :: db where
  "shop_with_order = shop\<lparr>orders := [(Inserted 1, test_order)], orders_seq := 2\<rparr>"

text \<open>The same database after connection 1 has reserved three tickets for its order.\<close>

definition three_reserved :: db where
  "three_reserved =
     shop_with_order
       \<lparr>tickets :=
          map (\<lambda>i. (Updated 1 (free_ticket i), (free_ticket i)\<lparr>ticket_order_id := Some 1\<rparr>)) [1, 2, 3]
          @ map (\<lambda>i. (Committed, free_ticket i)) [4, 5, 6, 7, 8, 9, 10]\<rparr>"

section \<open>The operations as steps\<close>

text \<open>
  The calls a caller can make on a connection, and the database after a call: what the
  call raised if it raised, and the new state. A call that waits for another transaction
  has no state after it (\<open>None\<close>).
\<close>

datatype call =
    Ensure_event string
  | Get_event string
  | Ensure_product Event string int
  | Get_product Event string
  | Ensure_tickets Product
  | Create_order Event
  | Reserve Order Product int
  | Availability Event
  | Count_free Product

definition raised :: "error + 'a \<Rightarrow> error option" where
  "raised r = (case r of Inl e \<Rightarrow> Some e | Inr _ \<Rightarrow> None)"

fun exec :: "conn \<Rightarrow> call \<Rightarrow> db \<Rightarrow> (error option \<times> db) option" where
  "exec c (Ensure_event slug) s =
     map_option (\<lambda>(r, s'). (raised r, s')) (Event_ensure c slug s)"
| "exec c (Get_event slug) s = Some (raised (Event_get c slug s), s)"
| "exec c (Ensure_product event slug quota) s =
     map_option (\<lambda>(r, s'). (raised r, s')) (Product_ensure c event slug quota s)"
| "exec c (Get_product event slug) s = Some (raised (Product_get c event slug s), s)"
| "exec c (Ensure_tickets product) s =
     (case ensure_tickets c product s of (r, s') \<Rightarrow> Some (raised r, s'))"
| "exec c (Create_order event) s =
     (case Order_create c event s of (r, s') \<Rightarrow> Some (raised r, s'))"
| "exec c (Reserve order product quantity) s =
     (case reserve c order product quantity s of (r, s') \<Rightarrow> Some (raised r, s'))"
| "exec c (Availability event) s =
     (case get_products_with_availability c event s of (r, s') \<Rightarrow> Some (None, s'))"
| "exec c (Count_free product) s = Some (None, s)"

section \<open>Callers, transactions and the reservations they make\<close>




























text \<open>
  What one step may do to a ticket, and to the table: a ticket keeps its columns, or it
  was free and the step has given it an order id; the rows of the table stay where they
  are, and the rows the step adds are free.
\<close>

definition ticket_step :: "Ticket \<Rightarrow> Ticket \<Rightarrow> bool" where
  "ticket_step t t' =
     (t' = t \<or> (ticket_order_id t = None \<and> ticket_order_id t' \<noteq> None
                 \<and> ticket_id t' = ticket_id t \<and> ticket_product_id t' = ticket_product_id t))"

definition tickets_step :: "Ticket table \<Rightarrow> Ticket table \<Rightarrow> bool" where
  "tickets_step tab tab' =
     (length tab \<le> length tab'
      \<and> list_all2 ticket_step (map snd tab) (map snd (take (length tab) tab'))
      \<and> list_all (\<lambda>xr. ticket_order_id (snd xr) = None) (drop (length tab) tab'))"

section \<open>Lists, keys and the rows a reservation joins\<close>

lemma filter_mem_take:
  "distinct xs \<Longrightarrow> filter (\<lambda>x. x \<in> set (take n (filter P xs))) xs = take n (filter P xs)"
proof (induction xs arbitrary: n)
  case Nil
  then show ?case by simp
next
  case (Cons x xs)
  have notin: "\<And>m. x \<notin> set (take m (filter P xs))"
    using Cons.prems by (auto dest: in_set_takeD)
  show ?case
  proof (cases "P x")
    case False
    then show ?thesis using Cons notin by simp
  next
    case True
    show ?thesis
    proof (cases n)
      case 0
      then show ?thesis by simp
    next
      case (Suc m)
      have "filter (\<lambda>y. y = x \<or> y \<in> set (take m (filter P xs))) xs
            = filter (\<lambda>y. y \<in> set (take m (filter P xs))) xs"
        using Cons.prems by (intro filter_cong) auto
      then show ?thesis using True Suc Cons by simp
    qed
  qed
qed

lemma key_mem_take:
  assumes "distinct (map key xs)" and "x \<in> set xs"
  shows "key x \<in> key ` set (take n (filter P xs)) \<longleftrightarrow> x \<in> set (take n (filter P xs))"
proof
  assume "key x \<in> key ` set (take n (filter P xs))"
  then obtain y where y: "y \<in> set (take n (filter P xs))" "key y = key x" by auto
  then have "y \<in> set xs" by (auto dest: in_set_takeD)
  with assms y have "y = x" by (meson distinct_map inj_onD)
  with y show "x \<in> set (take n (filter P xs))" by simp
qed auto

lemma claimable_visible: "claimable c pid xr \<Longrightarrow> visible c xr \<noteq> None \<and> lockable c (fst xr)"
  by (auto simp: claimable_def split: option.splits)

lemma joined_iff:
  assumes "distinct (map (\<lambda>xr. ticket_id (snd xr)) tab)" and "xr \<in> set tab"
  shows "(ticket_id (snd xr) \<in> set (map (\<lambda>xr. ticket_id (snd xr)) (take n (filter (claimable c pid) tab)))
           \<and> visible c xr \<noteq> None \<and> lockable c (fst xr))
         \<longleftrightarrow> xr \<in> set (take n (filter (claimable c pid) tab))"
proof -
  have "xr \<in> set (take n (filter (claimable c pid) tab)) \<Longrightarrow> claimable c pid xr"
    by (auto dest: in_set_takeD)
  then show ?thesis
    using key_mem_take [OF assms, of n "claimable c pid"] claimable_visible [of c pid xr]
    by auto
qed

lemma reserve_eq:
  assumes pk: "distinct (map (\<lambda>xr. ticket_id (snd xr)) (tickets s))" and q: "0 \<le> quantity"
  shows "reserve c order product quantity s =
     (let ch = chosen c product quantity s;
          s' = s\<lparr>tickets := claim c order ch (tickets s)\<rparr>
      in if ch \<noteq> [] \<and> order_id order \<notin> order_id ` set (visible_rows c (orders s))
         then (Inl ForeignKeyViolation, s)
         else if int (length ch) < quantity then (Inl NotEnoughTickets, s')
         else (Inr (map (\<lambda>xr. \<lparr>ticket_id = ticket_id (snd xr), ticket_product_id = product_id product,
                                 ticket_order_id = Some (order_id order)\<rparr>) ch), s'))"
proof -
  let ?ch = "take (nat quantity) (filter (claimable c (product_id product)) (tickets s))"
  let ?joined = "\<lambda>xr. ticket_id (snd xr) \<in> set (map (\<lambda>xr. ticket_id (snd xr)) ?ch)
                    \<and> visible c xr \<noteq> None \<and> lockable c (fst xr)"
  have d: "distinct (tickets s)" using pk by (simp add: distinct_map)
  have f: "filter ?joined (tickets s) = ?ch"
  proof -
    have "filter ?joined (tickets s) = filter (\<lambda>xr. xr \<in> set ?ch) (tickets s)"
      by (rule filter_cong [OF refl]) (rule joined_iff [OF pk])
    then show ?thesis using filter_mem_take [OF d] by simp
  qed
  have m: "map (\<lambda>xr. if ?joined xr then update_row c (order_id order) xr else xr) (tickets s)
           = claim c order ?ch (tickets s)"
    unfolding claim_def
    by (rule map_cong [OF refl]) (simp only: joined_iff [OF pk])
  show ?thesis
    using q unfolding reserve_def Let_def chosen_def f m
    by (simp add: comp_def)
qed

lemma claimable_iff:
  "claimable c pid (x, t) \<longleftrightarrow>
     ticket_product_id t = pid \<and> ticket_order_id t = None \<and> lockable c x"
  by (cases x) (auto simp: claimable_def lockable_def)

lemma snd_update_row: "snd (update_row c oid (x, t)) = t\<lparr>ticket_order_id := Some oid\<rparr>"
  by (cases x) simp_all

lemma chosen_claimable: "xr \<in> set (chosen c product quantity s) \<Longrightarrow>
    xr \<in> set (tickets s) \<and> claimable c (product_id product) xr"
  unfolding chosen_def by (auto dest: in_set_takeD)



section \<open>A reservation claims all it was asked for, or raises\<close>


section \<open>Rows and transactions\<close>



lemma rollback_lock_row: "rollback_row c (lock_row c xr) = rollback_row c xr"
  by (cases xr, cases "fst xr") auto

lemma commit_lock_row: "commit_row c (lock_row c xr) = commit_row c xr"
  by (cases xr, cases "fst xr") auto

lemma snd_lock_row: "snd (lock_row c xr) = snd xr"
  by (cases xr, cases "fst xr") auto

lemma claimable_lock_row: "claimable c pid (lock_row c xr) = claimable c pid xr"
  by (cases xr, cases "fst xr") (auto simp: claimable_def lockable_def)

lemma not_owns_rollback: "\<not> owns c tab \<Longrightarrow> List.map_filter (rollback_row c) tab = tab"
proof (induction tab)
  case Nil
  then show ?case by (simp add: List.map_filter_simps)
next
  case (Cons xr tab)
  obtain x r where xr: "xr = (x, r)" by (cases xr)
  from Cons.prems have "owner x \<noteq> Some c" and "\<not> owns c tab"
    by (simp_all add: owns_def xr)
  then show ?case using Cons.IH
    by (cases x) (auto simp: xr List.map_filter_simps)
qed

lemma not_owns_commit: "\<not> owns c tab \<Longrightarrow> map (commit_row c) tab = tab"
  by (induction tab) (auto simp: owns_def)

lemma idle_rollback: "idle c s \<Longrightarrow> rollback c s = s"
  by (simp add: idle_def rollback_def not_owns_rollback)

lemma idle_commit: "idle c s \<Longrightarrow> commit c s = s"
  by (simp add: idle_def commit_def not_owns_commit)





section \<open>A failed reservation, rolled back\<close>


lemma lock_first_found: "fst (lock_first c pid tab) = list_ex (claimable c pid) tab"
  by (induction tab) (auto split: prod.splits)

lemma lock_first_rollback:
  "List.map_filter (rollback_row c) (snd (lock_first c pid tab)) = List.map_filter (rollback_row c) tab"
  by (induction tab) (auto simp: List.map_filter_simps rollback_lock_row split: prod.splits option.splits)

lemma lock_first_commit:
  "map (commit_row c) (snd (lock_first c pid tab)) = map (commit_row c) tab"
  by (induction tab) (auto simp: commit_lock_row simp del: commit_row.simps split: prod.splits)

lemma lock_first_rows: "map snd (snd (lock_first c pid tab)) = map snd tab"
  by (induction tab) (auto simp: snd_lock_row split: prod.splits)

lemma lock_first_claimable:
  "list_ex (claimable c pid') (snd (lock_first c pid tab)) = list_ex (claimable c pid') tab"
  by (induction tab) (auto simp: claimable_lock_row split: prod.splits)

lemma snd_probe_products_Cons:
  "snd (probe_products c event (p # ps) tab)
     = snd (probe_products c event ps (snd (lock_first c (product_id p) tab)))"
  by (simp split: prod.splits)

lemma fst_probe_products_Cons:
  "fst (probe_products c event (p # ps) tab)
     = (\<lparr>product_id = product_id p, product_event_id = event_id event,
         product_slug = product_slug p, product_quota = product_quota p\<rparr>,
        fst (lock_first c (product_id p) tab))
       # fst (probe_products c event ps (snd (lock_first c (product_id p) tab)))"
  by (simp split: prod.splits)

lemma probe_products_rollback:
  "List.map_filter (rollback_row c) (snd (probe_products c event ps tab))
     = List.map_filter (rollback_row c) tab"
  by (induction ps arbitrary: tab)
     (simp_all only: snd_probe_products_Cons lock_first_rollback probe_products.simps(1) snd_conv)

lemma probe_products_commit:
  "map (commit_row c) (snd (probe_products c event ps tab)) = map (commit_row c) tab"
  by (induction ps arbitrary: tab)
     (simp_all only: snd_probe_products_Cons lock_first_commit probe_products.simps(1) snd_conv)

lemma probe_products_rows: "map snd (snd (probe_products c event ps tab)) = map snd tab"
  by (induction ps arbitrary: tab)
     (simp_all only: snd_probe_products_Cons lock_first_rows probe_products.simps(1) snd_conv)

lemma probe_products_result:
  "fst (probe_products c event ps tab)
     = map (\<lambda>p. (\<lparr>product_id = product_id p, product_event_id = event_id event,
                    product_slug = product_slug p, product_quota = product_quota p\<rparr>,
                   list_ex (claimable c (product_id p)) tab)) ps"
proof (induction ps arbitrary: tab)
  case Nil
  then show ?case by simp
next
  case (Cons p ps)
  show ?case
    unfolding fst_probe_products_Cons Cons.IH
    by (simp add: lock_first_found lock_first_claimable)
qed

lemma claimable_ex:
  "claimable c pid xr \<longleftrightarrow>
     (\<exists>t. visible c xr = Some t \<and> ticket_product_id t = pid \<and> ticket_order_id t = None
          \<and> lockable c (fst xr))"
  by (auto simp: claimable_def split: option.splits)

section \<open>The availability probe\<close>

text \<open>
  Claim C8. \<^verbatim>\<open>get_products_with_availability\<close> returns one entry for each product of
  the event (each row of \<^verbatim>\<open>products\<close> with the event's id that the connection sees, in
  table order), and the boolean of a product is true if and only if some ticket exists
  whose version seen by the connection belongs to the product and has a null order id,
  and which no other open transaction holds.
\<close>

theorem availability_says_whether_a_ticket_is_free:
  "fst (get_products_with_availability c event s) =
     map (\<lambda>p. (p, \<exists>xr \<in> set (tickets s). \<exists>t. visible c xr = Some t
                       \<and> ticket_product_id t = product_id p \<and> ticket_order_id t = None
                       \<and> lockable c (fst xr)))
         (filter (\<lambda>p. product_event_id p = event_id event) (visible_rows c (products s)))"
proof -
  let ?ps = "filter (\<lambda>p. product_event_id p = event_id event) (visible_rows c (products s))"
  have "fst (get_products_with_availability c event s) = fst (probe_products c event ?ps (tickets s))"
    by (simp add: get_products_with_availability_def split_def Let_def)
  also have "\<dots> = map (\<lambda>p. (p, list_ex (claimable c (product_id p)) (tickets s))) ?ps"
    unfolding probe_products_result by (rule map_cong [OF refl]) simp
  finally show ?thesis
    by (simp add: list_ex_iff claimable_ex)
qed

text \<open>
  Claim C9. The probe changes nothing but row locks of its own transaction: the events,
  products, orders and sequences are the same, the ticket rows have the same contents in
  the same order (no order id assigned, no row inserted or deleted), and ending the
  transaction either way, by commit or by rollback (the exit after a failure), gives the
  database that ending it before the probe gives. For a connection that was idle before
  the probe, the database after the transaction ends is the database before the probe.
\<close>

theorem availability_probe_changes_no_row:
  "snd (get_products_with_availability c event s)
     = s\<lparr>tickets := tickets (snd (get_products_with_availability c event s))\<rparr>
   \<and> map snd (tickets (snd (get_products_with_availability c event s))) = map snd (tickets s)
   \<and> commit c (snd (get_products_with_availability c event s)) = commit c s
   \<and> rollback c (snd (get_products_with_availability c event s)) = rollback c s
   \<and> (idle c s \<longrightarrow> commit c (snd (get_products_with_availability c event s)) = s
                  \<and> rollback c (snd (get_products_with_availability c event s)) = s)"
proof -
  let ?ps = "filter (\<lambda>p. product_event_id p = event_id event) (visible_rows c (products s))"
  have s': "snd (get_products_with_availability c event s)
              = s\<lparr>tickets := snd (probe_products c event ?ps (tickets s))\<rparr>"
    by (simp add: get_products_with_availability_def split_def Let_def)
  have c: "commit c (s\<lparr>tickets := snd (probe_products c event ?ps (tickets s))\<rparr>) = commit c s"
    by (simp add: commit_def probe_products_commit del: commit_row.simps)
  have r: "rollback c (s\<lparr>tickets := snd (probe_products c event ?ps (tickets s))\<rparr>) = rollback c s"
    by (simp add: rollback_def probe_products_rollback)
  show ?thesis
    unfolding s' using c r idle_commit [of c s] idle_rollback [of c s]
    by (simp add: probe_products_rows)
qed

section \<open>What a step does to the tickets\<close>

lemma ticket_step_refl: "ticket_step t t"
  by (simp add: ticket_step_def)

lemma tickets_step_same_rows: "map snd tab' = map snd tab \<Longrightarrow> tickets_step tab tab'"
proof -
  assume eq: "map snd tab' = map snd tab"
  then have len: "length tab' = length tab" by (metis length_map)
  show ?thesis
    unfolding tickets_step_def using len eq
    by (simp add: list_all2_same ticket_step_refl)
qed

lemma tickets_step_refl: "tickets_step tab tab"
  by (rule tickets_step_same_rows) simp

lemma tickets_step_append:
  "list_all (\<lambda>xr. ticket_order_id (snd xr) = None) new \<Longrightarrow> tickets_step tab (tab @ new)"
  unfolding tickets_step_def by (simp add: list_all2_same ticket_step_refl)

lemma tickets_step_map:
  "(\<And>xr. xr \<in> set tab \<Longrightarrow> ticket_step (snd xr) (snd (f xr))) \<Longrightarrow> tickets_step tab (map f tab)"
  unfolding tickets_step_def by (simp add: list_all2_conv_all_nth)

lemma tickets_step_claimed:
  assumes "tickets_step tab tab'" and "i < length tab"
    and "ticket_order_id (snd (tab ! i)) \<noteq> None"
  shows "i < length tab' \<and> snd (tab' ! i) = snd (tab ! i)"
  using assms unfolding tickets_step_def
  by (auto simp: list_all2_conv_all_nth ticket_step_def)

lemma new_tickets_free: "list_all (\<lambda>xr. ticket_order_id (snd xr) = None) (new_tickets c pid first n)"
  by (simp add: new_tickets_def list_all_iff)

lemma tickets_step_claim:
  "tickets_step (tickets s) (claim c order (chosen c product quantity s) (tickets s))"
  unfolding claim_def
proof (rule tickets_step_map)
  fix xr assume "xr \<in> set (tickets s)"
  show "ticket_step (snd xr)
          (snd (if xr \<in> set (chosen c product quantity s) then update_row c (order_id order) xr else xr))"
  proof (cases "xr \<in> set (chosen c product quantity s)")
    case True
    obtain x t where xr: "xr = (x, t)" by (cases xr)
    from chosen_claimable [OF True] have "ticket_order_id t = None"
      by (simp add: xr claimable_iff)
    then show ?thesis using True by (simp add: xr snd_update_row ticket_step_def)
  next
    case False
    then show ?thesis by (simp add: ticket_step_refl)
  qed
qed

lemma tickets_step_reserve:
  assumes pk: "distinct (map (\<lambda>xr. ticket_id (snd xr)) (tickets s))"
  shows "tickets_step (tickets s) (tickets (snd (reserve c order product quantity s)))"
proof (cases "0 \<le> quantity")
  case True
  have "snd (reserve c order product quantity s) = s
      \<or> snd (reserve c order product quantity s)
          = s\<lparr>tickets := claim c order (chosen c product quantity s) (tickets s)\<rparr>"
    unfolding reserve_eq [OF pk True] Let_def by auto
  then show ?thesis
    using tickets_step_claim [of s c order product quantity] tickets_step_refl [of "tickets s"]
    by auto
next
  case False
  then show ?thesis by (simp add: reserve_def tickets_step_refl)
qed

lemma tickets_step_ensure_tickets:
  "tickets_step (tickets s) (tickets (snd (ensure_tickets c self s)))"
  by (simp add: ensure_tickets_def Let_def tickets_step_refl tickets_step_append new_tickets_free)

lemma tickets_probe: "map snd (tickets (snd (get_products_with_availability c event s))) = map snd (tickets s)"
  by (simp add: get_products_with_availability_def split_def Let_def probe_products_rows)

lemma tickets_Order_create: "tickets (snd (Order_create c event s)) = tickets s"
  by (simp add: Order_create_def Let_def)

lemma tickets_ensure_row:
  assumes "\<And>r s'. ins s = Some (r, s') \<Longrightarrow> tickets s' = tickets s"
    and "ensure_row ins uf s = Some (r, s')"
  shows "tickets s' = tickets s"
  using assms by (auto simp: ensure_row_def split: option.splits sum.splits prod.splits)

lemma tickets_insert_event: "insert_event c slug s = Some (r, s') \<Longrightarrow> tickets s' = tickets s"
  by (auto simp: insert_event_def split: option.splits)

lemma tickets_insert_product:
  "insert_product c event slug quota s = Some (r, s') \<Longrightarrow> tickets s' = tickets s"
  by (auto simp: insert_product_def Let_def split: option.splits if_splits)

lemma tickets_Event_ensure: "Event_ensure c slug s = Some (r, s') \<Longrightarrow> tickets s' = tickets s"
  unfolding Event_ensure_def by (rule tickets_ensure_row [OF tickets_insert_event])

lemma tickets_step_Product_ensure:
  assumes "Product_ensure c event slug quota s = Some (r, s')"
  shows "tickets_step (tickets s) (tickets s')"
proof -
  from assms obtain r1 s1 where e: "ensure_row (insert_product c event slug quota) [''event_id'', ''slug''] s = Some (r1, s1)"
    by (auto simp: Product_ensure_def split: option.splits)
  have t1: "tickets s1 = tickets s"
    by (rule tickets_ensure_row [OF tickets_insert_product e])
  show ?thesis
  proof (cases r1)
    case (Inl err)
    with assms e have "s' = s1" by (simp add: Product_ensure_def)
    then show ?thesis by (simp add: t1 tickets_step_refl)
  next
    case (Inr p)
    with assms e have "s' = snd (ensure_tickets c p s1)"
      by (auto simp: Product_ensure_def split: prod.splits sum.splits)
    then show ?thesis using tickets_step_ensure_tickets [of s1 c p] by (simp add: t1)
  qed
qed

lemma tickets_step_exec:
  assumes pk: "distinct (map (\<lambda>xr. ticket_id (snd xr)) (tickets s))"
    and ex: "exec c k s = Some (r, s')"
  shows "tickets_step (tickets s) (tickets s')"
proof (cases k)
  case (Ensure_event slug)
  with ex obtain r' where "Event_ensure c slug s = Some (r', s')" by auto
  then show ?thesis by (simp add: tickets_Event_ensure tickets_step_refl)
next
  case (Ensure_product event slug quota)
  with ex obtain r' where "Product_ensure c event slug quota s = Some (r', s')" by auto
  then show ?thesis by (rule tickets_step_Product_ensure)
next
  case (Ensure_tickets product)
  with ex have "s' = snd (ensure_tickets c product s)" by (auto split: prod.splits)
  then show ?thesis by (simp add: tickets_step_ensure_tickets)
next
  case (Create_order event)
  with ex have "s' = snd (Order_create c event s)" by (auto split: prod.splits)
  then show ?thesis by (simp add: tickets_Order_create tickets_step_refl)
next
  case (Reserve order product quantity)
  with ex have "s' = snd (reserve c order product quantity s)" by (auto split: prod.splits)
  then show ?thesis by (simp add: tickets_step_reserve [OF pk])
next
  case (Availability event)
  with ex have "s' = snd (get_products_with_availability c event s)" by (auto split: prod.splits)
  then show ?thesis by (simp add: tickets_step_same_rows tickets_probe)
qed (use ex in \<open>auto simp: tickets_step_refl\<close>)

text \<open>
  Claim C7. In every database whose ticket ids are distinct (the primary key), and for
  every call of every connection that returns or raises, each ticket row stays at its
  place and either keeps its columns or was free and has been given an order id; rows
  that are added are free. In particular a ticket whose order id is not null before the
  call has the same order id (and the same id and product) after it.
\<close>

theorem order_id_is_never_reassigned:
  assumes pk: "distinct (map (\<lambda>xr. ticket_id (snd xr)) (tickets s))"
    and ex: "exec c k s = Some (r, s')"
  shows "tickets_step (tickets s) (tickets s')
       \<and> (\<forall>i < length (tickets s). ticket_order_id (snd (tickets s ! i)) \<noteq> None \<longrightarrow>
             i < length (tickets s') \<and> snd (tickets s' ! i) = snd (tickets s ! i))"
  using tickets_step_exec [OF pk ex] tickets_step_claimed [of "tickets s" "tickets s'"]
  by blast

section \<open>Reconciling a product's tickets with its quota\<close>

text \<open>
  Claim C6. \<^verbatim>\<open>ensure_tickets\<close> compares the number \<open>count\<close> of the product's ticket
  rows (those the connection sees) with the quota. Equal: the database is unchanged.
  More: it raises \<^verbatim>\<open>NotImplementedError\<close> and the database is unchanged. Fewer, for a
  product that is a row of \<^verbatim>\<open>products\<close>: it appends exactly \<open>quota - count\<close> rows of
  the product with a null order id, and changes no other row. (Fewer, for a product id
  that is no row of \<^verbatim>\<open>products\<close>: the foreign key refuses the insert.)
\<close>

theorem ensure_tickets_reconciles:
  fixes c self s
  defines "count \<equiv> ticket_count c (product_id self) s"
  shows "(count = product_quota self \<longrightarrow> ensure_tickets c self s = (Inr (), s))
       \<and> (count > product_quota self \<longrightarrow> ensure_tickets c self s = (Inl NotImplementedError, s))
       \<and> (count < product_quota self
            \<and> product_id self \<in> product_id ` set (visible_rows c (products s)) \<longrightarrow>
            (\<exists>new. ensure_tickets c self s
                      = (Inr (), s\<lparr>tickets_seq := tickets_seq s + (product_quota self - count),
                                   tickets := tickets s @ new\<rparr>)
                 \<and> int (length new) = product_quota self - count
                 \<and> (\<forall>xr \<in> set new. ticket_product_id (snd xr) = product_id self
                                    \<and> ticket_order_id (snd xr) = None
                                    \<and> fst xr = Inserted c)))
       \<and> (count < product_quota self
            \<and> product_id self \<notin> product_id ` set (visible_rows c (products s)) \<longrightarrow>
            fst (ensure_tickets c self s) = Inl ForeignKeyViolation
            \<and> tickets (snd (ensure_tickets c self s)) = tickets s)"
proof -
  have new: "count < product_quota self \<Longrightarrow>
      int (length (new_tickets c (product_id self) (tickets_seq s) (nat (product_quota self - count))))
        = product_quota self - count
      \<and> (\<forall>xr \<in> set (new_tickets c (product_id self) (tickets_seq s) (nat (product_quota self - count))).
            ticket_product_id (snd xr) = product_id self \<and> ticket_order_id (snd xr) = None
            \<and> fst xr = Inserted c)"
    by (auto simp: new_tickets_def)
  show ?thesis
    using new unfolding ensure_tickets_def count_def [symmetric] Let_def
    by (auto intro!: exI [of _ "new_tickets c (product_id self) (tickets_seq s) (nat (product_quota self - count))"])
qed

section \<open>Ensuring a row that exists\<close>

lemma create_tables_Event_ensure:
  "Event_ensure 0 ''test-event'' create_tables = Some (Inr test_event, with_event)"
  by code_simp

lemma with_event_Product_ensure:
  "Product_ensure 0 test_event ''test-product'' 10 with_event = Some (Inr test_product, with_product)"
  by code_simp

lemma commit_with_product: "commit 0 with_product = shop"
  by code_simp

lemma shop_Order_create: "Order_create 1 test_event shop = (Inr test_order, shop_with_order)"
  by code_simp

lemma insert_conflict:
  "list_ex (\<lambda>xr. same_key (snd xr) \<and> visible c xr \<noteq> None) tab \<Longrightarrow>
   insert_on_conflict_do_nothing c same_key new tab = Some (None, tab)"
  by (simp add: insert_on_conflict_do_nothing_def)


lemma Event_ensure_existing:
  "list_ex (\<lambda>xr. event_slug (snd xr) = slug \<and> visible c xr \<noteq> None) (events s) \<Longrightarrow>
   Event_ensure c slug s = Some (Inl TypeError, s\<lparr>events_seq := events_seq s + 1\<rparr>)"
  by (simp add: Event_ensure_def ensure_row_def insert_event_def insert_conflict get_row_unpacked_def)


text \<open>
  Claim C3. The first \<^verbatim>\<open>Event.ensure\<close> of a slug inserts the row and returns it. The
  second call for the same slug, on the same connection or on another one after the
  commit, finds the conflict, fetches no row, and raises \<^verbatim>\<open>TypeError\<close> from the call of
  \<^verbatim>\<open>get_row\<close>: it does not return the row's id.
\<close>

theorem second_Event_ensure_raises:
  "Event_ensure 0 ''test-event'' create_tables = Some (Inr test_event, with_event)
   \<and> Event_ensure 0 ''test-event'' with_event
       = Some (Inl TypeError, with_event\<lparr>events_seq := 3\<rparr>)
   \<and> Event_ensure 1 ''test-event'' (commit 0 with_event)
       = Some (Inl TypeError, (commit 0 with_event)\<lparr>events_seq := 3\<rparr>)"
  by code_simp
















section \<open>Reserving nothing\<close>

text \<open>
  Claim C10. \<^verbatim>\<open>reserve(order, product, 0)\<close> returns the empty list and leaves the
  database as it was, whatever the order, the product and the state of the tickets: it
  does not raise \<^verbatim>\<open>NotEnoughTickets\<close>, also when the product has no free ticket.
\<close>

theorem reserve_zero: "reserve c order product 0 s = (Inr [], s)"
  by (simp add: reserve_def)

section \<open>The invariant of a run\<close>


































lemma snd_commit_row: "snd (commit_row c xr) = snd xr"
  by (cases xr) simp








lemma count_commit:
  "length (filter (\<lambda>xr. ticket_product_id (snd xr) = pid) (map (commit_row c) tab))
     = length (filter (\<lambda>xr. ticket_product_id (snd xr) = pid) tab)"
  by (simp add: filter_map comp_def snd_commit_row del: commit_row.simps)





















































lemma filter_filter_other:
  "c' \<noteq> c \<Longrightarrow> filter (\<lambda>e. fst e = c') (filter (\<lambda>e. fst e \<noteq> c) log) = filter (\<lambda>e. fst e = c') log"
  by (induction log) auto










section \<open>No overselling\<close>



section \<open>The theorems on the databases of the tests\<close>

lemma shop_reserve_three:
  "reserve 1 test_order test_product 3 shop_with_order
     = (Inr (map (\<lambda>i. (free_ticket i)\<lparr>ticket_order_id := Some 1\<rparr>) [1, 2, 3]), three_reserved)"
  by code_simp




theorem ensure_tickets_reconciles_witness:
  "ticket_count 0 (product_id test_product) shop = 10
   \<and> product_id test_product \<in> product_id ` set (visible_rows 0 (products shop))
   \<and> ensure_tickets 0 test_product shop = (Inr (), shop)
   \<and> ensure_tickets 0 (test_product\<lparr>product_quota := 9\<rparr>) shop = (Inl NotImplementedError, shop)
   \<and> (\<exists>new. ensure_tickets 0 (test_product\<lparr>product_quota := 12\<rparr>) shop
                = (Inr (), shop\<lparr>tickets_seq := tickets_seq shop + 2, tickets := tickets shop @ new\<rparr>)
          \<and> int (length new) = 2)"
proof -
  have k: "ticket_count 0 (product_id test_product) shop = 10" by code_simp
  have v: "product_id test_product \<in> product_id ` set (visible_rows 0 (products shop))" by code_simp
  have q: "product_quota test_product = 10" by (simp add: test_product_def)
  from ensure_tickets_reconciles [of 0 test_product shop]
       ensure_tickets_reconciles [of 0 "test_product\<lparr>product_quota := 9\<rparr>" shop]
       ensure_tickets_reconciles [of 0 "test_product\<lparr>product_quota := 12\<rparr>" shop]
  show ?thesis using k v q by auto
qed

theorem order_id_is_never_reassigned_witness:
  "distinct (map (\<lambda>xr. ticket_id (snd xr)) (tickets three_reserved))
   \<and> exec 1 (Reserve test_order test_product 3) three_reserved
       = Some (None, snd (reserve 1 test_order test_product 3 three_reserved))
   \<and> (0::nat) < length (tickets three_reserved)
   \<and> ticket_order_id (snd (tickets three_reserved ! 0)) = Some 1
   \<and> snd (tickets (snd (reserve 1 test_order test_product 3 three_reserved)) ! 0)
       = snd (tickets three_reserved ! 0)
   \<and> ticket_order_id (snd (tickets three_reserved ! 3)) = None
   \<and> ticket_order_id (snd (tickets (snd (reserve 1 test_order test_product 3 three_reserved)) ! 3))
       = Some 1"
proof -
  have pk: "distinct (map (\<lambda>xr. ticket_id (snd xr)) (tickets three_reserved))" by code_simp
  have ex: "exec 1 (Reserve test_order test_product 3) three_reserved
       = Some (None, snd (reserve 1 test_order test_product 3 three_reserved))"
    by code_simp
  have l: "(0::nat) < length (tickets three_reserved)" by code_simp
  have o: "ticket_order_id (snd (tickets three_reserved ! 0)) = Some 1" by code_simp
  have f: "ticket_order_id (snd (tickets three_reserved ! 3)) = None" by code_simp
  have g: "ticket_order_id (snd (tickets (snd (reserve 1 test_order test_product 3 three_reserved)) ! 3))
       = Some 1" by code_simp
  from order_id_is_never_reassigned [OF pk ex] l o
  have "snd (tickets (snd (reserve 1 test_order test_product 3 three_reserved)) ! 0)
       = snd (tickets three_reserved ! 0)"
    by simp
  with pk ex l o f g show ?thesis by simp
qed

theorem availability_witness:
  "fst (get_products_with_availability 2 test_event three_reserved) = [(test_product, True)]
   \<and> (\<exists>xr \<in> set (tickets three_reserved). \<exists>t. visible 2 xr = Some t
          \<and> ticket_product_id t = product_id test_product \<and> ticket_order_id t = None
          \<and> lockable 2 (fst xr))"
proof -
  have e: "fst (get_products_with_availability 2 test_event three_reserved) = [(test_product, True)]"
    by code_simp
  from availability_says_whether_a_ticket_is_free [of 2 test_event three_reserved] e
  show ?thesis by (auto simp: map_eq_Cons_conv)
qed

theorem availability_probe_witness:
  "idle 2 three_reserved
   \<and> snd (get_products_with_availability 2 test_event three_reserved) \<noteq> three_reserved
   \<and> map snd (tickets (snd (get_products_with_availability 2 test_event three_reserved)))
       = map snd (tickets three_reserved)
   \<and> commit 2 (snd (get_products_with_availability 2 test_event three_reserved)) = three_reserved
   \<and> rollback 2 (snd (get_products_with_availability 2 test_event three_reserved)) = three_reserved"
proof -
  have i: "idle 2 three_reserved" by code_simp
  have n: "snd (get_products_with_availability 2 test_event three_reserved) \<noteq> three_reserved"
    by code_simp
  note t = availability_probe_changes_no_row [of 2 test_event three_reserved]
  have m: "map snd (tickets (snd (get_products_with_availability 2 test_event three_reserved)))
       = map snd (tickets three_reserved)"
    using t by blast
  have c: "commit 2 (snd (get_products_with_availability 2 test_event three_reserved)) = three_reserved"
    using t i by blast
  have r: "rollback 2 (snd (get_products_with_availability 2 test_event three_reserved)) = three_reserved"
    using t i by blast
  from i n m c r show ?thesis by (intro conjI)
qed

theorem reserve_zero_witness:
  "count_free 0 test_product with_event = 0
   \<and> reserve 0 test_order test_product 0 with_event = (Inr [], with_event)"
proof -
  have "count_free 0 test_product with_event = 0" by code_simp
  with reserve_zero [of 0 test_order test_product with_event] show ?thesis by simp
qed


end
